theory Spec2Isabelle
  imports Main "HOL-Library.AList"
begin

section \<open>Data model of \<^verbatim>\<open>token_tracker_handler.py\<close>\<close>

text \<open>
  The four dataclasses become records with the fields of the source, in the source's
  order. Several classes use the same field names; a selector is therefore always
  written with its class, as in \<open>AgentTokenMetrics.total_tokens\<close>. Python's \<^verbatim>\<open>int\<close> is
  unbounded, so every counter is an \<open>int\<close>; \<^verbatim>\<open>str\<close> is \<open>string\<close>. The value of
  \<^verbatim>\<open>datetime.now()\<close> is read from the clock, so the model takes it as an argument.
\<close>

type_synonym datetime = nat

record LLMCallMetrics =
  timestamp :: datetime
  agent_name :: string
  task_name :: string
  model :: string
  prompt_tokens :: int
  completion_tokens :: int
  total_tokens :: int
  call_type :: string

record AgentTokenMetrics =
  agent_name :: string
  total_tokens :: int
  prompt_tokens :: int
  completion_tokens :: int
  call_count :: int
  calls :: "LLMCallMetrics list"

record TaskTokenMetrics =
  task_name :: string
  agent_name :: string
  total_tokens :: int
  prompt_tokens :: int
  completion_tokens :: int
  call_count :: int
  calls :: "LLMCallMetrics list"

text \<open>
  A Python \<^verbatim>\<open>dict\<close> with string keys keeps its entries in insertion order, one entry per
  key: an association list in which \<open>AList.update\<close> overwrites the entry of a key that
  is present and appends an entry for a key that is not. Reading a key that is absent
  raises \<^verbatim>\<open>KeyError\<close>.
\<close>

type_synonym 'v dict = "(string \<times> 'v) list"

datatype py_error = KeyError string

definition dict_contains :: "'v dict \<Rightarrow> string \<Rightarrow> bool" where
  "dict_contains d k = (map_of d k \<noteq> None)"

definition dict_setitem :: "'v dict \<Rightarrow> string \<Rightarrow> 'v \<Rightarrow> 'v dict" where
  "dict_setitem d k v = AList.update k v d"

definition dict_getitem :: "'v dict \<Rightarrow> string \<Rightarrow> py_error + 'v" where
  "dict_getitem d k = (case map_of d k of None \<Rightarrow> Inl (KeyError k) | Some v \<Rightarrow> Inr v)"

record WorkflowTokenMetrics =
  total_tokens :: int
  prompt_tokens :: int
  completion_tokens :: int
  per_agent :: "AgentTokenMetrics dict"
  per_task :: "TaskTokenMetrics dict"
  all_calls :: "LLMCallMetrics list"

text \<open>The constructors with the dataclass defaults (zero counters, empty containers).\<close>

definition AgentTokenMetrics_init :: "string \<Rightarrow> AgentTokenMetrics" where
  "AgentTokenMetrics_init agent =
     \<lparr>AgentTokenMetrics.agent_name = agent, AgentTokenMetrics.total_tokens = 0,
      AgentTokenMetrics.prompt_tokens = 0, AgentTokenMetrics.completion_tokens = 0,
      AgentTokenMetrics.call_count = 0, AgentTokenMetrics.calls = []\<rparr>"

definition TaskTokenMetrics_init :: "string \<Rightarrow> string \<Rightarrow> TaskTokenMetrics" where
  "TaskTokenMetrics_init task agent =
     \<lparr>TaskTokenMetrics.task_name = task, TaskTokenMetrics.agent_name = agent,
      TaskTokenMetrics.total_tokens = 0, TaskTokenMetrics.prompt_tokens = 0,
      TaskTokenMetrics.completion_tokens = 0, TaskTokenMetrics.call_count = 0,
      TaskTokenMetrics.calls = []\<rparr>"

definition WorkflowTokenMetrics_init :: WorkflowTokenMetrics where
  "WorkflowTokenMetrics_init =
     \<lparr>WorkflowTokenMetrics.total_tokens = 0, WorkflowTokenMetrics.prompt_tokens = 0,
      WorkflowTokenMetrics.completion_tokens = 0, per_agent = [], per_task = [],
      all_calls = []\<rparr>"

section \<open>\<^verbatim>\<open>record_llm_call\<close> on one \<^verbatim>\<open>WorkflowTokenMetrics\<close> object\<close>

text \<open>
  Lines 67 to 79: the call record, whose \<open>total_tokens\<close> is the sum computed on line 67.
  The arguments are \<^verbatim>\<open>datetime.now()\<close>, \<^verbatim>\<open>agent_name\<close>, \<^verbatim>\<open>task_name\<close>, \<^verbatim>\<open>model\<close>,
  \<^verbatim>\<open>prompt_tokens\<close>, \<^verbatim>\<open>completion_tokens\<close> and \<^verbatim>\<open>call_type\<close>.
\<close>

definition call_record ::
  "datetime \<Rightarrow> string \<Rightarrow> string \<Rightarrow> string \<Rightarrow> int \<Rightarrow> int \<Rightarrow> string \<Rightarrow> LLMCallMetrics" where
  "call_record now agent task mdl ptoks ctoks ctype =
     (let total = ptoks + ctoks in
      \<lparr>timestamp = now, LLMCallMetrics.agent_name = agent, LLMCallMetrics.task_name = task,
       model = mdl, LLMCallMetrics.prompt_tokens = ptoks,
       LLMCallMetrics.completion_tokens = ctoks, LLMCallMetrics.total_tokens = total,
       call_type = ctype\<rparr>)"

text \<open>The default of the parameter \<^verbatim>\<open>call_type\<close>.\<close>

definition default_call_type :: string where
  "default_call_type = ''generation''"

text \<open>Line 105: the f-string \<^verbatim>\<open>f"{task_name}_{agent_name}"\<close>.\<close>

definition task_key :: "string \<Rightarrow> string \<Rightarrow> string" where
  "task_key task agent = task @ ''_'' @ agent"

text \<open>
  Lines 67 to 116, on the object \<^verbatim>\<open>self._metrics\<close> refers to. The aggregate fetched from
  a dictionary is updated in place in the source; the model stores the updated aggregate
  back under its key. Both subscript reads can raise \<^verbatim>\<open>KeyError\<close> in Python and are
  modelled so.
\<close>

definition record_llm_call_metrics ::
  "datetime \<Rightarrow> string \<Rightarrow> string \<Rightarrow> string \<Rightarrow> int \<Rightarrow> int \<Rightarrow> string \<Rightarrow>
   WorkflowTokenMetrics \<Rightarrow> py_error + WorkflowTokenMetrics" where
  "record_llm_call_metrics now agent task mdl ptoks ctoks ctype m0 =
     (let total = ptoks + ctoks;
          c = call_record now agent task mdl ptoks ctoks ctype;
          m1 = m0\<lparr>WorkflowTokenMetrics.total_tokens := WorkflowTokenMetrics.total_tokens m0 + total,
                  WorkflowTokenMetrics.prompt_tokens := WorkflowTokenMetrics.prompt_tokens m0 + ptoks,
                  WorkflowTokenMetrics.completion_tokens :=
                    WorkflowTokenMetrics.completion_tokens m0 + ctoks,
                  all_calls := all_calls m0 @ [c]\<rparr>;
          m2 = (if \<not> dict_contains (per_agent m1) agent
                then m1\<lparr>per_agent := dict_setitem (per_agent m1) agent (AgentTokenMetrics_init agent)\<rparr>
                else m1)
      in case dict_getitem (per_agent m2) agent of
           Inl e \<Rightarrow> Inl e
         | Inr agent_metrics \<Rightarrow>
             (let agent_metrics' = agent_metrics
                    \<lparr>AgentTokenMetrics.total_tokens := AgentTokenMetrics.total_tokens agent_metrics + total,
                     AgentTokenMetrics.prompt_tokens := AgentTokenMetrics.prompt_tokens agent_metrics + ptoks,
                     AgentTokenMetrics.completion_tokens :=
                       AgentTokenMetrics.completion_tokens agent_metrics + ctoks,
                     AgentTokenMetrics.call_count := AgentTokenMetrics.call_count agent_metrics + 1,
                     AgentTokenMetrics.calls := AgentTokenMetrics.calls agent_metrics @ [c]\<rparr>;
                  m3 = m2\<lparr>per_agent := dict_setitem (per_agent m2) agent agent_metrics'\<rparr>;
                  key = task_key task agent;
                  m4 = (if \<not> dict_contains (per_task m3) key
                        then m3\<lparr>per_task := dict_setitem (per_task m3) key (TaskTokenMetrics_init task agent)\<rparr>
                        else m3)
              in case dict_getitem (per_task m4) key of
                   Inl e \<Rightarrow> Inl e
                 | Inr task_metrics \<Rightarrow>
                     (let task_metrics' = task_metrics
                            \<lparr>TaskTokenMetrics.total_tokens := TaskTokenMetrics.total_tokens task_metrics + total,
                             TaskTokenMetrics.prompt_tokens := TaskTokenMetrics.prompt_tokens task_metrics + ptoks,
                             TaskTokenMetrics.completion_tokens :=
                               TaskTokenMetrics.completion_tokens task_metrics + ctoks,
                             TaskTokenMetrics.call_count := TaskTokenMetrics.call_count task_metrics + 1,
                             TaskTokenMetrics.calls := TaskTokenMetrics.calls task_metrics @ [c]\<rparr>
                      in Inr (m4\<lparr>per_task := dict_setitem (per_task m4) key task_metrics'\<rparr>))))"

section \<open>The tracker and its store of objects\<close>

text \<open>
  \<^verbatim>\<open>get_metrics\<close> returns the object \<^verbatim>\<open>self._metrics\<close> refers to, not a copy, so whether a
  caller sees later updates depends on which object is updated. The model keeps a store
  of every \<^verbatim>\<open>WorkflowTokenMetrics\<close> object constructed so far; the address of an object
  is its position in the store, and \<open>metrics\<close> is the reference held in
  \<^verbatim>\<open>self._metrics\<close>. The aggregates and lists inside one \<^verbatim>\<open>WorkflowTokenMetrics\<close> object
  are reachable only through that object, so they are kept as its parts. The lock is
  not modelled: the operations run one after another.
\<close>

type_synonym ref = nat

record CrewTokenTracker =
  heap :: "WorkflowTokenMetrics list"
  metrics :: ref

text \<open>\<^verbatim>\<open>__init__\<close>: one fresh object, and \<^verbatim>\<open>self._metrics\<close> bound to it.\<close>

definition CrewTokenTracker_init :: CrewTokenTracker where
  "CrewTokenTracker_init = \<lparr>heap = [WorkflowTokenMetrics_init], metrics = 0\<rparr>"

text \<open>Reading an object through a reference a caller holds.\<close>

definition deref :: "CrewTokenTracker \<Rightarrow> ref \<Rightarrow> WorkflowTokenMetrics option" where
  "deref s r = (if r < length (heap s) then Some (heap s ! r) else None)"

text \<open>
  \<^verbatim>\<open>record_llm_call\<close>: the object at \<open>metrics s\<close> is updated where it is. In Python
  \<^verbatim>\<open>self._metrics\<close> always refers to an object; in the model \<open>metrics s\<close> is the address
  of an object of the store in every tracker reached from \<^verbatim>\<open>__init__\<close> (lemma
  \<open>reachable_bound\<close>), and the theorems are about those trackers.
\<close>

definition record_llm_call ::
  "datetime \<Rightarrow> string \<Rightarrow> string \<Rightarrow> string \<Rightarrow> int \<Rightarrow> int \<Rightarrow> string \<Rightarrow>
   CrewTokenTracker \<Rightarrow> py_error + CrewTokenTracker" where
  "record_llm_call now agent task mdl ptoks ctoks ctype s =
     (case record_llm_call_metrics now agent task mdl ptoks ctoks ctype (heap s ! metrics s) of
        Inl e \<Rightarrow> Inl e
      | Inr m \<Rightarrow> Inr (s\<lparr>heap := (heap s)[metrics s := m]\<rparr>))"

text \<open>\<^verbatim>\<open>get_metrics\<close>: \<^verbatim>\<open>return self._metrics\<close>, the reference itself.\<close>

definition get_metrics :: "CrewTokenTracker \<Rightarrow> ref" where
  "get_metrics s = metrics s"

text \<open>\<^verbatim>\<open>reset\<close>: a new object is constructed and \<^verbatim>\<open>self._metrics\<close> is bound to it.\<close>

definition reset :: "CrewTokenTracker \<Rightarrow> CrewTokenTracker" where
  "reset s = s\<lparr>heap := heap s @ [WorkflowTokenMetrics_init], metrics := length (heap s)\<rparr>"

text \<open>Sequences of calls on one tracker; the first error ends the run, as an exception would.\<close>

datatype op =
    RecordLLMCall datetime string string string int int string
  | GetMetrics
  | Reset

fun step :: "op \<Rightarrow> CrewTokenTracker \<Rightarrow> py_error + CrewTokenTracker" where
  "step (RecordLLMCall now agent task mdl ptoks ctoks ctype) s =
     record_llm_call now agent task mdl ptoks ctoks ctype s"
| "step GetMetrics s = Inr s"
| "step Reset s = Inr (reset s)"

fun run :: "op list \<Rightarrow> CrewTokenTracker \<Rightarrow> py_error + CrewTokenTracker" where
  "run [] s = Inr s"
| "run (x # xs) s = (case step x s of Inl e \<Rightarrow> Inl e | Inr s' \<Rightarrow> run xs s')"

text \<open>
  The calls a sequence of operations has recorded since its last \<open>Reset\<close>, in order, given
  the calls \<open>acc\<close> recorded before the sequence starts.
\<close>

fun recorded :: "op list \<Rightarrow> LLMCallMetrics list \<Rightarrow> LLMCallMetrics list" where
  "recorded [] acc = acc"
| "recorded (RecordLLMCall now agent task mdl ptoks ctoks ctype # xs) acc =
     recorded xs (acc @ [call_record now agent task mdl ptoks ctoks ctype])"
| "recorded (GetMetrics # xs) acc = recorded xs acc"
| "recorded (Reset # xs) acc = recorded xs []"

section \<open>What one recorded call does to an object\<close>

text \<open>
  The functions of this section are not in the source. They name the effect of the
  update blocks of \<^verbatim>\<open>record_llm_call\<close> so that the lemmas below can speak about it;
  \<open>record_llm_call_metrics_eq\<close> proves that the source's function computes them.
\<close>

definition agent_add :: "LLMCallMetrics \<Rightarrow> AgentTokenMetrics \<Rightarrow> AgentTokenMetrics" where
  "agent_add c a = a
     \<lparr>AgentTokenMetrics.total_tokens :=
        AgentTokenMetrics.total_tokens a + LLMCallMetrics.total_tokens c,
      AgentTokenMetrics.prompt_tokens :=
        AgentTokenMetrics.prompt_tokens a + LLMCallMetrics.prompt_tokens c,
      AgentTokenMetrics.completion_tokens :=
        AgentTokenMetrics.completion_tokens a + LLMCallMetrics.completion_tokens c,
      AgentTokenMetrics.call_count := AgentTokenMetrics.call_count a + 1,
      AgentTokenMetrics.calls := AgentTokenMetrics.calls a @ [c]\<rparr>"

definition task_add :: "LLMCallMetrics \<Rightarrow> TaskTokenMetrics \<Rightarrow> TaskTokenMetrics" where
  "task_add c t = t
     \<lparr>TaskTokenMetrics.total_tokens :=
        TaskTokenMetrics.total_tokens t + LLMCallMetrics.total_tokens c,
      TaskTokenMetrics.prompt_tokens :=
        TaskTokenMetrics.prompt_tokens t + LLMCallMetrics.prompt_tokens c,
      TaskTokenMetrics.completion_tokens :=
        TaskTokenMetrics.completion_tokens t + LLMCallMetrics.completion_tokens c,
      TaskTokenMetrics.call_count := TaskTokenMetrics.call_count t + 1,
      TaskTokenMetrics.calls := TaskTokenMetrics.calls t @ [c]\<rparr>"

definition agent_entry :: "AgentTokenMetrics dict \<Rightarrow> string \<Rightarrow> AgentTokenMetrics" where
  "agent_entry d agent =
     (case map_of d agent of None \<Rightarrow> AgentTokenMetrics_init agent | Some a \<Rightarrow> a)"

definition task_entry :: "TaskTokenMetrics dict \<Rightarrow> string \<Rightarrow> string \<Rightarrow> TaskTokenMetrics" where
  "task_entry d task agent =
     (case map_of d (task_key task agent) of
        None \<Rightarrow> TaskTokenMetrics_init task agent
      | Some t \<Rightarrow> t)"

text \<open>The composite key under which a call record is filed in \<open>per_task\<close>.\<close>

definition key_of :: "LLMCallMetrics \<Rightarrow> string" where
  "key_of c = task_key (LLMCallMetrics.task_name c) (LLMCallMetrics.agent_name c)"

definition add_call :: "LLMCallMetrics \<Rightarrow> WorkflowTokenMetrics \<Rightarrow> WorkflowTokenMetrics" where
  "add_call c m =
     \<lparr>WorkflowTokenMetrics.total_tokens =
        WorkflowTokenMetrics.total_tokens m + LLMCallMetrics.total_tokens c,
      WorkflowTokenMetrics.prompt_tokens =
        WorkflowTokenMetrics.prompt_tokens m + LLMCallMetrics.prompt_tokens c,
      WorkflowTokenMetrics.completion_tokens =
        WorkflowTokenMetrics.completion_tokens m + LLMCallMetrics.completion_tokens c,
      per_agent = AList.update (LLMCallMetrics.agent_name c)
        (agent_add c (agent_entry (per_agent m) (LLMCallMetrics.agent_name c))) (per_agent m),
      per_task = AList.update (key_of c)
        (task_add c (task_entry (per_task m) (LLMCallMetrics.task_name c)
           (LLMCallMetrics.agent_name c)))
        (per_task m),
      all_calls = all_calls m @ [c]\<rparr>"

text \<open>The calls among \<open>cs\<close> that name the agent \<open>k\<close>, and those filed under the key \<open>k\<close>.\<close>

definition calls_of_agent :: "string \<Rightarrow> LLMCallMetrics list \<Rightarrow> LLMCallMetrics list" where
  "calls_of_agent k cs = filter (\<lambda>c. LLMCallMetrics.agent_name c = k) cs"

definition calls_of_key :: "string \<Rightarrow> LLMCallMetrics list \<Rightarrow> LLMCallMetrics list" where
  "calls_of_key k cs = filter (\<lambda>c. key_of c = k) cs"

text \<open>
  What it means for the aggregate \<open>a\<close> stored under the agent name \<open>k\<close>, and for the
  aggregate \<open>t\<close> stored under the composite key \<open>k\<close>, to agree with the calls \<open>cs\<close>.
\<close>

definition agent_matches :: "string \<Rightarrow> AgentTokenMetrics \<Rightarrow> LLMCallMetrics list \<Rightarrow> bool" where
  "agent_matches k a cs \<longleftrightarrow>
     AgentTokenMetrics.agent_name a = k
     \<and> AgentTokenMetrics.total_tokens a = sum_list (map LLMCallMetrics.total_tokens (calls_of_agent k cs))
     \<and> AgentTokenMetrics.prompt_tokens a = sum_list (map LLMCallMetrics.prompt_tokens (calls_of_agent k cs))
     \<and> AgentTokenMetrics.completion_tokens a =
         sum_list (map LLMCallMetrics.completion_tokens (calls_of_agent k cs))
     \<and> AgentTokenMetrics.call_count a = int (length (calls_of_agent k cs))
     \<and> AgentTokenMetrics.calls a = calls_of_agent k cs
     \<and> calls_of_agent k cs \<noteq> []"

definition task_matches :: "string \<Rightarrow> TaskTokenMetrics \<Rightarrow> LLMCallMetrics list \<Rightarrow> bool" where
  "task_matches k t cs \<longleftrightarrow>
     TaskTokenMetrics.total_tokens t = sum_list (map LLMCallMetrics.total_tokens (calls_of_key k cs))
     \<and> TaskTokenMetrics.prompt_tokens t = sum_list (map LLMCallMetrics.prompt_tokens (calls_of_key k cs))
     \<and> TaskTokenMetrics.completion_tokens t =
         sum_list (map LLMCallMetrics.completion_tokens (calls_of_key k cs))
     \<and> TaskTokenMetrics.call_count t = int (length (calls_of_key k cs))
     \<and> TaskTokenMetrics.calls t = calls_of_key k cs
     \<and> calls_of_key k cs \<noteq> []
     \<and> TaskTokenMetrics.task_name t = LLMCallMetrics.task_name (hd (calls_of_key k cs))
     \<and> TaskTokenMetrics.agent_name t = LLMCallMetrics.agent_name (hd (calls_of_key k cs))"

text \<open>Invariants of one \<^verbatim>\<open>WorkflowTokenMetrics\<close> object, each relative to its own \<open>all_calls\<close>.\<close>

definition agents_ok :: "WorkflowTokenMetrics \<Rightarrow> bool" where
  "agents_ok m \<longleftrightarrow>
     distinct (map fst (per_agent m))
     \<and> (\<forall>k. case map_of (per_agent m) k of
               None \<Rightarrow> calls_of_agent k (all_calls m) = []
             | Some a \<Rightarrow> agent_matches k a (all_calls m))"

definition tasks_ok :: "WorkflowTokenMetrics \<Rightarrow> bool" where
  "tasks_ok m \<longleftrightarrow>
     distinct (map fst (per_task m))
     \<and> (\<forall>k. case map_of (per_task m) k of
               None \<Rightarrow> calls_of_key k (all_calls m) = []
             | Some t \<Rightarrow> task_matches k t (all_calls m))"

definition sums_ok :: "WorkflowTokenMetrics \<Rightarrow> bool" where
  "sums_ok m \<longleftrightarrow>
     WorkflowTokenMetrics.total_tokens m = sum_list (map LLMCallMetrics.total_tokens (all_calls m))
     \<and> WorkflowTokenMetrics.prompt_tokens m = sum_list (map LLMCallMetrics.prompt_tokens (all_calls m))
     \<and> WorkflowTokenMetrics.completion_tokens m =
         sum_list (map LLMCallMetrics.completion_tokens (all_calls m))
     \<and> WorkflowTokenMetrics.total_tokens m =
         sum_list (map (\<lambda>kv. AgentTokenMetrics.total_tokens (snd kv)) (per_agent m))
     \<and> WorkflowTokenMetrics.prompt_tokens m =
         sum_list (map (\<lambda>kv. AgentTokenMetrics.prompt_tokens (snd kv)) (per_agent m))
     \<and> WorkflowTokenMetrics.completion_tokens m =
         sum_list (map (\<lambda>kv. AgentTokenMetrics.completion_tokens (snd kv)) (per_agent m))
     \<and> WorkflowTokenMetrics.total_tokens m =
         sum_list (map (\<lambda>kv. TaskTokenMetrics.total_tokens (snd kv)) (per_task m))
     \<and> WorkflowTokenMetrics.prompt_tokens m =
         sum_list (map (\<lambda>kv. TaskTokenMetrics.prompt_tokens (snd kv)) (per_task m))
     \<and> WorkflowTokenMetrics.completion_tokens m =
         sum_list (map (\<lambda>kv. TaskTokenMetrics.completion_tokens (snd kv)) (per_task m))"

definition calls_ok :: "WorkflowTokenMetrics \<Rightarrow> bool" where
  "calls_ok m \<longleftrightarrow>
     (\<forall>c \<in> set (all_calls m).
        LLMCallMetrics.total_tokens c =
          LLMCallMetrics.prompt_tokens c + LLMCallMetrics.completion_tokens c)"

section \<open>Basic facts\<close>

lemma call_record_sel [simp]:
  "timestamp (call_record now agent task mdl p c ct) = now"
  "LLMCallMetrics.agent_name (call_record now agent task mdl p c ct) = agent"
  "LLMCallMetrics.task_name (call_record now agent task mdl p c ct) = task"
  "model (call_record now agent task mdl p c ct) = mdl"
  "LLMCallMetrics.prompt_tokens (call_record now agent task mdl p c ct) = p"
  "LLMCallMetrics.completion_tokens (call_record now agent task mdl p c ct) = c"
  "LLMCallMetrics.total_tokens (call_record now agent task mdl p c ct) = p + c"
  "call_type (call_record now agent task mdl p c ct) = ct"
  by (simp_all add: call_record_def)

text \<open>
  Neither subscript read of \<^verbatim>\<open>record_llm_call\<close> raises: each follows the insertion of
  its key. The function returns the object with the call added to all three views.
\<close>

lemma record_llm_call_metrics_eq:
  "record_llm_call_metrics now agent task mdl p c ct m =
     Inr (add_call (call_record now agent task mdl p c ct) m)"
  by (cases "map_of (per_agent m) agent"; cases "map_of (per_task m) (task_key task agent)")
     (simp_all add: record_llm_call_metrics_def add_call_def dict_contains_def dict_setitem_def
        dict_getitem_def agent_entry_def task_entry_def agent_add_def task_add_def key_of_def
        AList.update_conv' Let_def)

lemma record_llm_call_eq:
  "record_llm_call now agent task mdl p c ct s =
     Inr (s\<lparr>heap := (heap s)[metrics s :=
            add_call (call_record now agent task mdl p c ct) (heap s ! metrics s)]\<rparr>)"
  by (simp add: record_llm_call_def record_llm_call_metrics_eq)

lemma step_total: "\<exists>s'. step x s = Inr s'"
  by (cases x) (simp_all add: record_llm_call_eq)

lemma run_total: "\<exists>s'. run xs s = Inr s'"
proof (induction xs arbitrary: s)
  case Nil
  show ?case by simp
next
  case (Cons x xs)
  obtain s1 where s1: "step x s = Inr s1" using step_total by blast
  with Cons.IH [of s1] show ?case by simp
qed

lemma run_append:
  "run (xs @ ys) s = (case run xs s of Inl e \<Rightarrow> Inl e | Inr s' \<Rightarrow> run ys s')"
  by (induction xs arbitrary: s) (simp_all split: sum.splits)

section \<open>Runs never fail, and \<open>metrics\<close> always refers to an object of the store\<close>

text \<open>The reference in \<^verbatim>\<open>self._metrics\<close> is the address of an object of the store.\<close>

lemma step_bound:
  "step x s = Inr s' \<Longrightarrow> metrics s < length (heap s) \<Longrightarrow> metrics s' < length (heap s')"
  by (cases x) (auto simp: record_llm_call_eq reset_def)

lemma run_bound:
  "run xs s = Inr s' \<Longrightarrow> metrics s < length (heap s) \<Longrightarrow> metrics s' < length (heap s')"
proof (induction xs arbitrary: s)
  case Nil
  then show ?case by simp
next
  case (Cons x xs)
  obtain s1 where s1: "step x s = Inr s1" using step_total by blast
  with Cons.prems have "run xs s1 = Inr s'" by simp
  moreover have "metrics s1 < length (heap s1)" using s1 Cons.prems(2) by (rule step_bound)
  ultimately show ?case by (rule Cons.IH)
qed

lemma init_bound: "metrics CrewTokenTracker_init < length (heap CrewTokenTracker_init)"
  by (simp add: CrewTokenTracker_init_def)

text \<open>An object that \<^verbatim>\<open>self._metrics\<close> no longer refers to is never written again.\<close>

lemma step_frame:
  "step x s = Inr s' \<Longrightarrow> metrics s < length (heap s) \<Longrightarrow> r < length (heap s) \<Longrightarrow> r \<noteq> metrics s \<Longrightarrow>
   r < length (heap s') \<and> r \<noteq> metrics s' \<and> heap s' ! r = heap s ! r"
  by (cases x) (auto simp: record_llm_call_eq reset_def nth_append)

lemma run_frame:
  "run xs s = Inr s' \<Longrightarrow> metrics s < length (heap s) \<Longrightarrow> r < length (heap s) \<Longrightarrow> r \<noteq> metrics s \<Longrightarrow>
   r < length (heap s') \<and> r \<noteq> metrics s' \<and> heap s' ! r = heap s ! r"
proof (induction xs arbitrary: s)
  case Nil
  then show ?case by simp
next
  case (Cons x xs)
  obtain s1 where s1: "step x s = Inr s1" using step_total by blast
  with Cons.prems have r: "run xs s1 = Inr s'" by simp
  have b: "metrics s1 < length (heap s1)" using s1 Cons.prems(2) by (rule step_bound)
  have f: "r < length (heap s1) \<and> r \<noteq> metrics s1 \<and> heap s1 ! r = heap s ! r"
    using s1 Cons.prems(2,3,4) by (rule step_frame)
  from Cons.IH [OF r b] f show ?case by simp
qed

lemma reachable_bound:
  "run ops CrewTokenTracker_init = Inr s \<Longrightarrow> metrics s < length (heap s)"
  by (erule run_bound) (rule init_bound)

section \<open>Invariants of the aggregates\<close>

text \<open>Each entry of \<open>per_agent\<close> and of \<open>per_task\<close> agrees with the calls filed under its key.\<close>

lemma agents_ok_init: "agents_ok WorkflowTokenMetrics_init"
  by (simp add: agents_ok_def WorkflowTokenMetrics_init_def calls_of_agent_def)

lemma tasks_ok_init: "tasks_ok WorkflowTokenMetrics_init"
  by (simp add: tasks_ok_def WorkflowTokenMetrics_init_def calls_of_key_def)

lemma add_call_sel [simp]:
  "all_calls (add_call c m) = all_calls m @ [c]"
  "WorkflowTokenMetrics.total_tokens (add_call c m) =
     WorkflowTokenMetrics.total_tokens m + LLMCallMetrics.total_tokens c"
  "WorkflowTokenMetrics.prompt_tokens (add_call c m) =
     WorkflowTokenMetrics.prompt_tokens m + LLMCallMetrics.prompt_tokens c"
  "WorkflowTokenMetrics.completion_tokens (add_call c m) =
     WorkflowTokenMetrics.completion_tokens m + LLMCallMetrics.completion_tokens c"
  "per_agent (add_call c m) = AList.update (LLMCallMetrics.agent_name c)
        (agent_add c (agent_entry (per_agent m) (LLMCallMetrics.agent_name c))) (per_agent m)"
  "per_task (add_call c m) = AList.update (key_of c)
        (task_add c (task_entry (per_task m) (LLMCallMetrics.task_name c)
           (LLMCallMetrics.agent_name c)))
        (per_task m)"
  by (simp_all add: add_call_def)

lemma agent_matches_new:
  "calls_of_agent (LLMCallMetrics.agent_name c) cs = [] \<Longrightarrow>
   agent_matches (LLMCallMetrics.agent_name c)
     (agent_add c (AgentTokenMetrics_init (LLMCallMetrics.agent_name c))) (cs @ [c])"
  by (simp add: agent_matches_def agent_add_def AgentTokenMetrics_init_def calls_of_agent_def)

lemma agent_matches_add:
  "agent_matches (LLMCallMetrics.agent_name c) a cs \<Longrightarrow>
   agent_matches (LLMCallMetrics.agent_name c) (agent_add c a) (cs @ [c])"
  by (simp add: agent_matches_def agent_add_def calls_of_agent_def)

lemma agent_matches_other:
  "k \<noteq> LLMCallMetrics.agent_name c \<Longrightarrow> agent_matches k a (cs @ [c]) = agent_matches k a cs"
  by (simp add: agent_matches_def calls_of_agent_def)

lemma agents_ok_add_call:
  assumes "agents_ok m"
  shows "agents_ok (add_call c m)"
proof -
  let ?k = "LLMCallMetrics.agent_name c"
  from assms have d: "distinct (map fst (per_agent m))"
    and inv: "\<And>k. case map_of (per_agent m) k of
                 None \<Rightarrow> calls_of_agent k (all_calls m) = []
               | Some a \<Rightarrow> agent_matches k a (all_calls m)"
    by (simp_all add: agents_ok_def)
  have new: "agent_matches ?k (agent_add c (agent_entry (per_agent m) ?k)) (all_calls m @ [c])"
  proof (cases "map_of (per_agent m) ?k")
    case None
    with inv [of ?k] show ?thesis by (simp add: agent_entry_def agent_matches_new)
  next
    case (Some a)
    with inv [of ?k] show ?thesis by (simp add: agent_entry_def agent_matches_add)
  qed
  have "case map_of (per_agent (add_call c m)) k of
          None \<Rightarrow> calls_of_agent k (all_calls (add_call c m)) = []
        | Some a \<Rightarrow> agent_matches k a (all_calls (add_call c m))" for k
  proof (cases "k = ?k")
    case True
    with new show ?thesis by (simp add: AList.update_conv')
  next
    case False
    with inv [of k] show ?thesis
      by (simp add: AList.update_conv' agent_matches_other calls_of_agent_def split: option.splits)
  qed
  with d show ?thesis by (simp add: agents_ok_def AList.distinct_update)
qed

lemma task_matches_new:
  "calls_of_key (key_of c) cs = [] \<Longrightarrow>
   task_matches (key_of c)
     (task_add c (TaskTokenMetrics_init (LLMCallMetrics.task_name c) (LLMCallMetrics.agent_name c)))
     (cs @ [c])"
  by (simp add: task_matches_def task_add_def TaskTokenMetrics_init_def calls_of_key_def)

lemma task_matches_add:
  "task_matches (key_of c) t cs \<Longrightarrow> task_matches (key_of c) (task_add c t) (cs @ [c])"
  by (simp add: task_matches_def task_add_def calls_of_key_def)

lemma task_matches_other:
  "k \<noteq> key_of c \<Longrightarrow> task_matches k t (cs @ [c]) = task_matches k t cs"
  by (simp add: task_matches_def calls_of_key_def)

lemma tasks_ok_add_call:
  assumes "tasks_ok m"
  shows "tasks_ok (add_call c m)"
proof -
  let ?k = "key_of c"
  from assms have d: "distinct (map fst (per_task m))"
    and inv: "\<And>k. case map_of (per_task m) k of
                 None \<Rightarrow> calls_of_key k (all_calls m) = []
               | Some t \<Rightarrow> task_matches k t (all_calls m)"
    by (simp_all add: tasks_ok_def)
  have new: "task_matches ?k
      (task_add c (task_entry (per_task m) (LLMCallMetrics.task_name c) (LLMCallMetrics.agent_name c)))
      (all_calls m @ [c])"
  proof (cases "map_of (per_task m) ?k")
    case None
    with inv [of ?k] show ?thesis by (simp add: task_entry_def task_matches_new key_of_def [symmetric])
  next
    case (Some t)
    with inv [of ?k] show ?thesis by (simp add: task_entry_def task_matches_add key_of_def [symmetric])
  qed
  have "case map_of (per_task (add_call c m)) k of
          None \<Rightarrow> calls_of_key k (all_calls (add_call c m)) = []
        | Some t \<Rightarrow> task_matches k t (all_calls (add_call c m))" for k
  proof (cases "k = ?k")
    case True
    with new show ?thesis by (simp add: AList.update_conv')
  next
    case False
    with inv [of k] show ?thesis
      by (simp add: AList.update_conv' task_matches_other calls_of_key_def split: option.splits)
  qed
  with d show ?thesis by (simp add: tasks_ok_def AList.distinct_update)
qed

text \<open>The three views carry the same totals.\<close>

lemma sum_list_update:
  fixes f :: "'v \<Rightarrow> int"
  shows "sum_list (map (\<lambda>kv. f (snd kv)) (AList.update k v al)) =
         sum_list (map (\<lambda>kv. f (snd kv)) al)
           - (case map_of al k of None \<Rightarrow> 0 | Some u \<Rightarrow> f u) + f v"
  by (induction al) auto

lemma sum_agent_add:
  assumes "\<And>a. f (agent_add c a) = f a + g c" and "\<And>k. f (AgentTokenMetrics_init k) = 0"
  shows "sum_list (map (\<lambda>kv. f (snd kv)) (per_agent (add_call c m))) =
         sum_list (map (\<lambda>kv. f (snd kv)) (per_agent m)) + (g c :: int)"
  by (cases "map_of (per_agent m) (LLMCallMetrics.agent_name c)")
     (simp_all add: sum_list_update agent_entry_def assms)

lemma sum_task_add:
  assumes "\<And>t. f (task_add c t) = f t + g c" and "\<And>k a. f (TaskTokenMetrics_init k a) = 0"
  shows "sum_list (map (\<lambda>kv. f (snd kv)) (per_task (add_call c m))) =
         sum_list (map (\<lambda>kv. f (snd kv)) (per_task m)) + (g c :: int)"
  by (cases "map_of (per_task m) (key_of c)")
     (simp_all add: sum_list_update task_entry_def assms key_of_def [symmetric])

lemma sums_ok_init: "sums_ok WorkflowTokenMetrics_init"
  by (simp add: sums_ok_def WorkflowTokenMetrics_init_def)

lemma sums_ok_add_call:
  assumes "sums_ok m"
  shows "sums_ok (add_call c m)"
proof -
  have a1: "sum_list (map (\<lambda>kv. AgentTokenMetrics.total_tokens (snd kv)) (per_agent (add_call c m))) =
      sum_list (map (\<lambda>kv. AgentTokenMetrics.total_tokens (snd kv)) (per_agent m))
        + LLMCallMetrics.total_tokens c"
    by (rule sum_agent_add) (simp_all add: agent_add_def AgentTokenMetrics_init_def)
  have a2: "sum_list (map (\<lambda>kv. AgentTokenMetrics.prompt_tokens (snd kv)) (per_agent (add_call c m))) =
      sum_list (map (\<lambda>kv. AgentTokenMetrics.prompt_tokens (snd kv)) (per_agent m))
        + LLMCallMetrics.prompt_tokens c"
    by (rule sum_agent_add) (simp_all add: agent_add_def AgentTokenMetrics_init_def)
  have a3: "sum_list (map (\<lambda>kv. AgentTokenMetrics.completion_tokens (snd kv)) (per_agent (add_call c m))) =
      sum_list (map (\<lambda>kv. AgentTokenMetrics.completion_tokens (snd kv)) (per_agent m))
        + LLMCallMetrics.completion_tokens c"
    by (rule sum_agent_add) (simp_all add: agent_add_def AgentTokenMetrics_init_def)
  have t1: "sum_list (map (\<lambda>kv. TaskTokenMetrics.total_tokens (snd kv)) (per_task (add_call c m))) =
      sum_list (map (\<lambda>kv. TaskTokenMetrics.total_tokens (snd kv)) (per_task m))
        + LLMCallMetrics.total_tokens c"
    by (rule sum_task_add) (simp_all add: task_add_def TaskTokenMetrics_init_def)
  have t2: "sum_list (map (\<lambda>kv. TaskTokenMetrics.prompt_tokens (snd kv)) (per_task (add_call c m))) =
      sum_list (map (\<lambda>kv. TaskTokenMetrics.prompt_tokens (snd kv)) (per_task m))
        + LLMCallMetrics.prompt_tokens c"
    by (rule sum_task_add) (simp_all add: task_add_def TaskTokenMetrics_init_def)
  have t3: "sum_list (map (\<lambda>kv. TaskTokenMetrics.completion_tokens (snd kv)) (per_task (add_call c m))) =
      sum_list (map (\<lambda>kv. TaskTokenMetrics.completion_tokens (snd kv)) (per_task m))
        + LLMCallMetrics.completion_tokens c"
    by (rule sum_task_add) (simp_all add: task_add_def TaskTokenMetrics_init_def)
  from assms show ?thesis
    unfolding sums_ok_def a1 a2 a3 t1 t2 t3 by simp
qed

lemma calls_ok_init: "calls_ok WorkflowTokenMetrics_init"
  by (simp add: calls_ok_def WorkflowTokenMetrics_init_def)

lemma calls_ok_add_call:
  "calls_ok m \<Longrightarrow> calls_ok (add_call (call_record now agent task mdl p c ct) m)"
  by (simp add: calls_ok_def)

text \<open>A property that the empty object has and every recorded call keeps holds of every object of the store.\<close>

lemma step_heap_all:
  assumes init: "P WorkflowTokenMetrics_init"
    and add: "\<And>now agent task mdl p c ct m.
                P m \<Longrightarrow> P (add_call (call_record now agent task mdl p c ct) m)"
    and st: "step x s = Inr s'"
    and b: "metrics s < length (heap s)"
    and all: "\<forall>m \<in> set (heap s). P m"
  shows "\<forall>m \<in> set (heap s'). P m"
proof (cases x)
  case (RecordLLMCall now agent task mdl p c ct)
  let ?v = "add_call (call_record now agent task mdl p c ct) (heap s ! metrics s)"
  from b all have "P (heap s ! metrics s)" by simp
  then have "P ?v" by (rule add)
  moreover from st RecordLLMCall have "heap s' = (heap s)[metrics s := ?v]"
    by (auto simp: record_llm_call_eq)
  ultimately show ?thesis
    using all set_update_subset_insert [of "heap s" "metrics s" ?v] by auto
next
  case GetMetrics
  with st all show ?thesis by auto
next
  case Reset
  with st all init show ?thesis by (auto simp: reset_def)
qed

lemma run_heap_all:
  assumes init: "P WorkflowTokenMetrics_init"
    and add: "\<And>now agent task mdl p c ct m.
                P m \<Longrightarrow> P (add_call (call_record now agent task mdl p c ct) m)"
  shows "run xs s = Inr s' \<Longrightarrow> metrics s < length (heap s) \<Longrightarrow> \<forall>m \<in> set (heap s). P m \<Longrightarrow>
         \<forall>m \<in> set (heap s'). P m"
proof (induction xs arbitrary: s)
  case Nil
  then show ?case by simp
next
  case (Cons x xs)
  obtain s1 where s1: "step x s = Inr s1" using step_total by blast
  with Cons.prems have r: "run xs s1 = Inr s'" by simp
  have b: "metrics s1 < length (heap s1)" using s1 Cons.prems(2) by (rule step_bound)
  have "\<forall>m \<in> set (heap s1). P m"
    using init add s1 Cons.prems(2,3) by (rule step_heap_all)
  with Cons.IH [OF r b] show ?case .
qed

lemma reachable_all:
  assumes init: "P WorkflowTokenMetrics_init"
    and add: "\<And>now agent task mdl p c ct m.
                P m \<Longrightarrow> P (add_call (call_record now agent task mdl p c ct) m)"
    and r: "run ops CrewTokenTracker_init = Inr s"
  shows "\<forall>m \<in> set (heap s). P m"
proof -
  have "\<forall>m \<in> set (heap CrewTokenTracker_init). P m"
    using init by (simp add: CrewTokenTracker_init_def)
  with run_heap_all [of P, OF init add r init_bound] show ?thesis by blast
qed

text \<open>The object \<^verbatim>\<open>self._metrics\<close> refers to lists exactly the calls recorded since the last reset.\<close>

lemma step_recorded:
  "step x s = Inr s' \<Longrightarrow> metrics s < length (heap s) \<Longrightarrow>
   all_calls (heap s' ! metrics s') = recorded [x] (all_calls (heap s ! metrics s))"
  by (cases x) (auto simp: record_llm_call_eq reset_def WorkflowTokenMetrics_init_def)

lemma recorded_Cons: "recorded (x # xs) acc = recorded xs (recorded [x] acc)"
  by (cases x) simp_all

lemma run_recorded:
  "run xs s = Inr s' \<Longrightarrow> metrics s < length (heap s) \<Longrightarrow>
   all_calls (heap s' ! metrics s') = recorded xs (all_calls (heap s ! metrics s))"
proof (induction xs arbitrary: s)
  case Nil
  then show ?case by simp
next
  case (Cons x xs)
  obtain s1 where s1: "step x s = Inr s1" using step_total by blast
  with Cons.prems have r: "run xs s1 = Inr s'" by simp
  have b: "metrics s1 < length (heap s1)" using s1 Cons.prems(2) by (rule step_bound)
  have "all_calls (heap s1 ! metrics s1) = recorded [x] (all_calls (heap s ! metrics s))"
    using s1 Cons.prems(2) by (rule step_recorded)
  with Cons.IH [OF r b] show ?case by (simp add: recorded_Cons [of x xs])
qed

lemma reachable_recorded:
  "run ops CrewTokenTracker_init = Inr s \<Longrightarrow> all_calls (heap s ! metrics s) = recorded ops []"
  using run_recorded [of ops CrewTokenTracker_init s] init_bound
  by (simp add: CrewTokenTracker_init_def WorkflowTokenMetrics_init_def)

text \<open>
  What a reference handed out earlier shows later: every call recorded before the next
  reset is appended to the object it refers to, and nothing after that reset reaches it.
\<close>

lemma step_length_mono: "step x s = Inr s' \<Longrightarrow> length (heap s) \<le> length (heap s')"
  by (cases x) (auto simp: record_llm_call_eq reset_def)

lemma run_length_mono: "run xs s = Inr s' \<Longrightarrow> length (heap s) \<le> length (heap s')"
proof (induction xs arbitrary: s)
  case Nil
  then show ?case by simp
next
  case (Cons x xs)
  obtain s1 where s1: "step x s = Inr s1" using step_total by blast
  with Cons.prems have "run xs s1 = Inr s'" by simp
  then have "length (heap s1) \<le> length (heap s')" by (rule Cons.IH)
  with step_length_mono [OF s1] show ?case by simp
qed

lemma run_no_reset:
  "run xs s = Inr s' \<Longrightarrow> Reset \<notin> set xs \<Longrightarrow>
   metrics s' = metrics s \<and> length (heap s') = length (heap s)"
proof (induction xs arbitrary: s)
  case Nil
  then show ?case by simp
next
  case (Cons x xs)
  obtain s1 where s1: "step x s = Inr s1" using step_total by blast
  with Cons.prems have r: "run xs s1 = Inr s'" by simp
  from Cons.prems have nr: "Reset \<notin> set xs" and x: "x \<noteq> Reset" by auto
  from s1 x have "metrics s1 = metrics s \<and> length (heap s1) = length (heap s)"
    by (cases x) (auto simp: record_llm_call_eq)
  with Cons.IH [OF r nr] show ?case by simp
qed

lemma recorded_no_reset: "Reset \<notin> set xs \<Longrightarrow> recorded xs acc = acc @ recorded xs []"
proof (induction xs arbitrary: acc)
  case Nil
  show ?case by simp
next
  case (Cons x xs)
  then have nr: "Reset \<notin> set xs" and x: "x \<noteq> Reset" by auto
  show ?case
  proof (cases x)
    case (RecordLLMCall now agent task mdl p c ct)
    then show ?thesis
      using Cons.IH [OF nr, of "acc @ [call_record now agent task mdl p c ct]"]
            Cons.IH [OF nr, of "[call_record now agent task mdl p c ct]"]
      by simp
  next
    case GetMetrics
    then show ?thesis using Cons.IH [OF nr, of acc] by simp
  next
    case Reset
    with x show ?thesis by simp
  qed
qed

lemma reset_frame:
  "r < length (heap s) \<Longrightarrow> heap (reset s) ! r = heap s ! r"
  by (simp add: reset_def nth_append)

lemma reset_bound: "metrics (reset s) < length (heap (reset s))"
  by (simp add: reset_def)

lemma frozen_after_reset:
  assumes r: "r < length (heap s)" and run: "run xs (reset s) = Inr s'"
  shows "r < length (heap s') \<and> heap s' ! r = heap s ! r"
proof -
  have "r < length (heap (reset s))" and "r \<noteq> metrics (reset s)"
    using r by (simp_all add: reset_def)
  with run_frame [OF run reset_bound] have "r < length (heap s') \<and> heap s' ! r = heap (reset s) ! r"
    by simp
  with r show ?thesis by (simp add: reset_frame)
qed

lemma snapshot_until_reset:
  assumes b: "metrics s < length (heap s)" and run: "run xs s = Inr s'"
  shows "metrics s < length (heap s') \<and>
         all_calls (heap s' ! metrics s) =
           all_calls (heap s ! metrics s) @ recorded (takeWhile (\<lambda>x. x \<noteq> Reset) xs) []"
proof -
  let ?pre = "takeWhile (\<lambda>x. x \<noteq> Reset) xs" and ?post = "dropWhile (\<lambda>x. x \<noteq> Reset) xs"
  obtain s1 where s1: "run ?pre s = Inr s1" using run_total by blast
  have nr: "Reset \<notin> set ?pre" by (auto dest: set_takeWhileD)
  from run_no_reset [OF s1 nr] have same: "metrics s1 = metrics s" "length (heap s1) = length (heap s)"
    by simp_all
  from run_recorded [OF s1 b] same
    recorded_no_reset [OF nr, of "all_calls (heap s ! metrics s)"]
  have calls: "all_calls (heap s1 ! metrics s) = all_calls (heap s ! metrics s) @ recorded ?pre []"
    by simp
  have "run (?pre @ ?post) s = (case run ?pre s of Inl e \<Rightarrow> Inl e | Inr t \<Rightarrow> run ?post t)"
    by (rule run_append)
  with s1 run have post: "run ?post s1 = Inr s'" by simp
  show ?thesis
  proof (cases ?post)
    case Nil
    with post have "s' = s1" by simp
    with calls same b show ?thesis by simp
  next
    case (Cons y ys)
    then have "?post \<noteq> []" by simp
    then have "\<not> hd ?post \<noteq> Reset" by (rule hd_dropWhile)
    with Cons have "y = Reset" by simp
    with Cons post have "run ys (reset s1) = Inr s'" by simp
    moreover have "metrics s < length (heap s1)" using b same by simp
    ultimately have "metrics s < length (heap s') \<and> heap s' ! metrics s = heap s1 ! metrics s"
      by (rule frozen_after_reset [rotated])
    with calls show ?thesis by simp
  qed
qed

text \<open>
  The same for the object as a whole: after any operations it is the object with the calls
  made before the next reset added to it, in order, and it is what it was when that reset ran.
\<close>

lemma step_no_reset_object:
  "step x s = Inr s' \<Longrightarrow> metrics s < length (heap s) \<Longrightarrow> x \<noteq> Reset \<Longrightarrow>
   heap s' ! metrics s = fold add_call (recorded [x] []) (heap s ! metrics s)"
  by (cases x) (auto simp: record_llm_call_eq)

lemma run_no_reset_object:
  "run xs s = Inr s' \<Longrightarrow> metrics s < length (heap s) \<Longrightarrow> Reset \<notin> set xs \<Longrightarrow>
   heap s' ! metrics s = fold add_call (recorded xs []) (heap s ! metrics s)"
proof (induction xs arbitrary: s)
  case Nil
  then show ?case by simp
next
  case (Cons x xs)
  obtain s1 where s1: "step x s = Inr s1" using step_total by blast
  with Cons.prems have r: "run xs s1 = Inr s'" by simp
  from Cons.prems have nr: "Reset \<notin> set xs" and x: "x \<noteq> Reset" by auto
  have same: "metrics s1 = metrics s"
    using s1 x by (cases x) (auto simp: record_llm_call_eq)
  have b1: "metrics s1 < length (heap s1)" using s1 Cons.prems(2) by (rule step_bound)
  have one: "heap s1 ! metrics s = fold add_call (recorded [x] []) (heap s ! metrics s)"
    using s1 Cons.prems(2) x by (rule step_no_reset_object)
  have "recorded (x # xs) [] = recorded xs (recorded [x] [])" by (rule recorded_Cons)
  also have "\<dots> = recorded [x] [] @ recorded xs []" using nr by (rule recorded_no_reset)
  finally have split: "recorded (x # xs) [] = recorded [x] [] @ recorded xs []" .
  from Cons.IH [OF r b1 nr] same one
  have "heap s' ! metrics s = fold add_call (recorded xs []) (fold add_call (recorded [x] []) (heap s ! metrics s))"
    by simp
  then show ?case unfolding split by simp
qed

lemma snapshot_split:
  assumes b: "metrics s < length (heap s)" and run: "run xs s = Inr s'"
  shows "\<exists>s1. run (takeWhile (\<lambda>x. x \<noteq> Reset) xs) s = Inr s1
           \<and> metrics s < length (heap s1) \<and> metrics s < length (heap s')
           \<and> heap s' ! metrics s = heap s1 ! metrics s
           \<and> heap s1 ! metrics s =
               fold add_call (recorded (takeWhile (\<lambda>x. x \<noteq> Reset) xs) []) (heap s ! metrics s)"
proof -
  let ?pre = "takeWhile (\<lambda>x. x \<noteq> Reset) xs" and ?post = "dropWhile (\<lambda>x. x \<noteq> Reset) xs"
  obtain s1 where s1: "run ?pre s = Inr s1" using run_total by blast
  have nr: "Reset \<notin> set ?pre" by (auto dest: set_takeWhileD)
  from run_no_reset [OF s1 nr] b have b1: "metrics s < length (heap s1)" by simp
  have obj: "heap s1 ! metrics s = fold add_call (recorded ?pre []) (heap s ! metrics s)"
    using s1 b nr by (rule run_no_reset_object)
  have "run (?pre @ ?post) s = (case run ?pre s of Inl e \<Rightarrow> Inl e | Inr t \<Rightarrow> run ?post t)"
    by (rule run_append)
  with s1 run have post: "run ?post s1 = Inr s'" by simp
  have "metrics s < length (heap s') \<and> heap s' ! metrics s = heap s1 ! metrics s"
  proof (cases ?post)
    case Nil
    with post have "s' = s1" by simp
    with b1 show ?thesis by simp
  next
    case (Cons y ys)
    then have "?post \<noteq> []" by simp
    then have "\<not> hd ?post \<noteq> Reset" by (rule hd_dropWhile)
    with Cons have "y = Reset" by simp
    with Cons post have "run ys (reset s1) = Inr s'" by simp
    with b1 show ?thesis by (rule frozen_after_reset)
  qed
  with s1 b1 obj show ?thesis by blast
qed

text \<open>The invariants hold of every object of a tracker reached from \<^verbatim>\<open>__init__\<close>.\<close>

lemma reachable_live:
  "run ops CrewTokenTracker_init = Inr s \<Longrightarrow>
   deref s (get_metrics s) = Some (heap s ! metrics s) \<and> heap s ! metrics s \<in> set (heap s)"
  by (frule reachable_bound) (simp add: deref_def get_metrics_def)

lemma reachable_sums_ok:
  "run ops CrewTokenTracker_init = Inr s \<Longrightarrow> \<forall>m \<in> set (heap s). sums_ok m"
  by (rule reachable_all [of sums_ok, OF sums_ok_init sums_ok_add_call])

lemma reachable_agents_ok:
  "run ops CrewTokenTracker_init = Inr s \<Longrightarrow> \<forall>m \<in> set (heap s). agents_ok m"
  by (rule reachable_all [of agents_ok, OF agents_ok_init agents_ok_add_call])

lemma reachable_tasks_ok:
  "run ops CrewTokenTracker_init = Inr s \<Longrightarrow> \<forall>m \<in> set (heap s). tasks_ok m"
  by (rule reachable_all [of tasks_ok, OF tasks_ok_init tasks_ok_add_call])

lemma reachable_calls_ok:
  "run ops CrewTokenTracker_init = Inr s \<Longrightarrow> \<forall>m \<in> set (heap s). calls_ok m"
  by (rule reachable_all [of calls_ok, OF calls_ok_init calls_ok_add_call])

lemma agents_ok_entry:
  assumes "agents_ok m" and "(k, a) \<in> set (per_agent m)"
  shows "agent_matches k a (all_calls m)"
proof -
  from assms have "map_of (per_agent m) k = Some a" by (simp add: agents_ok_def)
  moreover from assms(1) have "case map_of (per_agent m) k of
      None \<Rightarrow> calls_of_agent k (all_calls m) = []
    | Some a \<Rightarrow> agent_matches k a (all_calls m)"
    by (simp add: agents_ok_def)
  ultimately show ?thesis by simp
qed

lemma tasks_ok_entry:
  assumes "tasks_ok m" and "(k, t) \<in> set (per_task m)"
  shows "task_matches k t (all_calls m)"
proof -
  from assms have "map_of (per_task m) k = Some t" by (simp add: tasks_ok_def)
  moreover from assms(1) have "case map_of (per_task m) k of
      None \<Rightarrow> calls_of_key k (all_calls m) = []
    | Some t \<Rightarrow> task_matches k t (all_calls m)"
    by (simp add: tasks_ok_def)
  ultimately show ?thesis by simp
qed

lemma agents_ok_keys:
  assumes "agents_ok m"
  shows "fst ` set (per_agent m) = LLMCallMetrics.agent_name ` set (all_calls m)"
proof -
  have inv: "case map_of (per_agent m) k of
      None \<Rightarrow> calls_of_agent k (all_calls m) = []
    | Some a \<Rightarrow> agent_matches k a (all_calls m)" for k
    using assms by (simp add: agents_ok_def)
  have "k \<in> fst ` set (per_agent m) \<longleftrightarrow> k \<in> LLMCallMetrics.agent_name ` set (all_calls m)" for k
  proof -
    have "k \<in> fst ` set (per_agent m) \<longleftrightarrow> map_of (per_agent m) k \<noteq> None"
      by (simp add: map_of_eq_None_iff)
    also have "\<dots> \<longleftrightarrow> calls_of_agent k (all_calls m) \<noteq> []"
      using inv [of k] by (auto simp: agent_matches_def split: option.splits)
    also have "\<dots> \<longleftrightarrow> k \<in> LLMCallMetrics.agent_name ` set (all_calls m)"
      by (auto simp: calls_of_agent_def filter_empty_conv)
    finally show ?thesis .
  qed
  then show ?thesis by blast
qed

text \<open>The definitions that evaluate the operations on concrete input.\<close>

lemmas tracker_defs =
  record_llm_call_def record_llm_call_metrics_def call_record_def task_key_def
  dict_contains_def dict_setitem_def dict_getitem_def
  AgentTokenMetrics_init_def TaskTokenMetrics_init_def WorkflowTokenMetrics_init_def
  CrewTokenTracker_init_def get_metrics_def reset_def deref_def default_call_type_def Let_def

section \<open>Reset\<close>

text \<open>
  Claim C5. Whatever operations came before, \<^verbatim>\<open>reset()\<close> followed at once by
  \<^verbatim>\<open>get_metrics()\<close> returns an object whose three totals are 0 and whose \<open>per_agent\<close>,
  \<open>per_task\<close> and \<open>all_calls\<close> are empty.
\<close>

theorem reset_then_get_metrics_empty:
  "\<exists>s m. run ops CrewTokenTracker_init = Inr s
     \<and> deref (reset s) (get_metrics (reset s)) = Some m
     \<and> WorkflowTokenMetrics.total_tokens m = 0
     \<and> WorkflowTokenMetrics.prompt_tokens m = 0
     \<and> WorkflowTokenMetrics.completion_tokens m = 0
     \<and> per_agent m = [] \<and> per_task m = [] \<and> all_calls m = []"
proof -
  obtain s where s: "run ops CrewTokenTracker_init = Inr s" using run_total by blast
  have "deref (reset s) (get_metrics (reset s)) = Some WorkflowTokenMetrics_init"
    by (simp add: deref_def reset_def get_metrics_def)
  with s show ?thesis by (simp add: WorkflowTokenMetrics_init_def)
qed

section \<open>No failure\<close>

text \<open>
  Claim C7. \<^verbatim>\<open>record_llm_call\<close> never fails: on the tracker reached by any sequence of
  operations, and for all arguments (any strings, the empty one included, and any
  integers, negative ones included), it returns normally, and the three workflow totals
  grow by \<open>p + c\<close>, \<open>p\<close> and \<open>c\<close> by plain integer addition.
\<close>

theorem record_llm_call_never_fails:
  "\<exists>s s' m m'. run ops CrewTokenTracker_init = Inr s
     \<and> record_llm_call now agent task mdl p c ct s = Inr s'
     \<and> deref s (get_metrics s) = Some m
     \<and> deref s' (get_metrics s') = Some m'
     \<and> WorkflowTokenMetrics.total_tokens m' = WorkflowTokenMetrics.total_tokens m + (p + c)
     \<and> WorkflowTokenMetrics.prompt_tokens m' = WorkflowTokenMetrics.prompt_tokens m + p
     \<and> WorkflowTokenMetrics.completion_tokens m' = WorkflowTokenMetrics.completion_tokens m + c"
proof -
  obtain s where s: "run ops CrewTokenTracker_init = Inr s" using run_total by blast
  then have b: "metrics s < length (heap s)" by (rule reachable_bound)
  show ?thesis
    using s b by (simp add: record_llm_call_eq deref_def get_metrics_def add_call_def)
qed

text \<open>The same at empty names and negative counts, on a new tracker.\<close>

theorem record_llm_call_never_fails_witness:
  "\<exists>s' m'. record_llm_call 0 '''' '''' ''gpt'' (- 5) (- 7) default_call_type CrewTokenTracker_init = Inr s'
     \<and> deref s' (get_metrics s') = Some m'
     \<and> WorkflowTokenMetrics.total_tokens m' = - 12
     \<and> WorkflowTokenMetrics.prompt_tokens m' = - 5
     \<and> WorkflowTokenMetrics.completion_tokens m' = - 7"
  using record_llm_call_never_fails [of "[]" 0 "''''" "''''" "''gpt''" "- 5" "- 7" default_call_type]
  by (auto simp: deref_def get_metrics_def CrewTokenTracker_init_def WorkflowTokenMetrics_init_def)

section \<open>Totals across the three views\<close>

text \<open>
  Claim C3. After every sequence of \<^verbatim>\<open>record_llm_call\<close>, \<^verbatim>\<open>get_metrics\<close> and \<^verbatim>\<open>reset\<close>
  calls, the workflow's \<open>total_tokens\<close>, \<open>prompt_tokens\<close> and \<open>completion_tokens\<close> each
  equal the sum of that field over the entries of \<open>per_agent\<close>, the sum over the entries
  of \<open>per_task\<close>, and the sum over \<open>all_calls\<close>; \<open>all_calls\<close> lists the calls recorded since
  the last reset, and \<open>total_tokens\<close> is the sum of prompt plus completion tokens over
  those calls.
\<close>

theorem cross_view_totals:
  "\<exists>s m. run ops CrewTokenTracker_init = Inr s
     \<and> deref s (get_metrics s) = Some m
     \<and> all_calls m = recorded ops []
     \<and> WorkflowTokenMetrics.total_tokens m =
         sum_list (map (\<lambda>kv. AgentTokenMetrics.total_tokens (snd kv)) (per_agent m))
     \<and> WorkflowTokenMetrics.total_tokens m =
         sum_list (map (\<lambda>kv. TaskTokenMetrics.total_tokens (snd kv)) (per_task m))
     \<and> WorkflowTokenMetrics.total_tokens m =
         sum_list (map LLMCallMetrics.total_tokens (all_calls m))
     \<and> WorkflowTokenMetrics.prompt_tokens m =
         sum_list (map (\<lambda>kv. AgentTokenMetrics.prompt_tokens (snd kv)) (per_agent m))
     \<and> WorkflowTokenMetrics.prompt_tokens m =
         sum_list (map (\<lambda>kv. TaskTokenMetrics.prompt_tokens (snd kv)) (per_task m))
     \<and> WorkflowTokenMetrics.prompt_tokens m =
         sum_list (map LLMCallMetrics.prompt_tokens (all_calls m))
     \<and> WorkflowTokenMetrics.completion_tokens m =
         sum_list (map (\<lambda>kv. AgentTokenMetrics.completion_tokens (snd kv)) (per_agent m))
     \<and> WorkflowTokenMetrics.completion_tokens m =
         sum_list (map (\<lambda>kv. TaskTokenMetrics.completion_tokens (snd kv)) (per_task m))
     \<and> WorkflowTokenMetrics.completion_tokens m =
         sum_list (map LLMCallMetrics.completion_tokens (all_calls m))
     \<and> WorkflowTokenMetrics.total_tokens m =
         sum_list (map (\<lambda>c. LLMCallMetrics.prompt_tokens c + LLMCallMetrics.completion_tokens c)
           (recorded ops []))"
proof -
  obtain s where s: "run ops CrewTokenTracker_init = Inr s" using run_total by blast
  let ?m = "heap s ! metrics s"
  from s have live: "deref s (get_metrics s) = Some ?m" and mem: "?m \<in> set (heap s)"
    using reachable_live by blast+
  from s have rec: "all_calls ?m = recorded ops []" by (rule reachable_recorded)
  from s mem have sums: "sums_ok ?m" using reachable_sums_ok by blast
  from s mem have "calls_ok ?m" using reachable_calls_ok by blast
  then have "map LLMCallMetrics.total_tokens (all_calls ?m) =
      map (\<lambda>c. LLMCallMetrics.prompt_tokens c + LLMCallMetrics.completion_tokens c) (all_calls ?m)"
    by (simp add: calls_ok_def)
  then have "sum_list (map LLMCallMetrics.total_tokens (all_calls ?m)) =
      sum_list (map (\<lambda>c. LLMCallMetrics.prompt_tokens c + LLMCallMetrics.completion_tokens c)
        (all_calls ?m))"
    by (rule arg_cong)
  with sums rec have last: "WorkflowTokenMetrics.total_tokens ?m =
      sum_list (map (\<lambda>c. LLMCallMetrics.prompt_tokens c + LLMCallMetrics.completion_tokens c)
        (recorded ops []))"
    by (simp add: sums_ok_def)
  from sums have "sums_ok ?m" .
  then show ?thesis
    unfolding sums_ok_def using s live rec last by blast
qed

section \<open>Per-agent aggregation\<close>

text \<open>
  Claim C4. After any sequence of operations, the keys of \<open>per_agent\<close> are the agent
  names of the calls recorded since the last reset, and for every entry the aggregate's
  \<open>total_tokens\<close>, \<open>prompt_tokens\<close> and \<open>completion_tokens\<close> are the sums of those fields
  over the calls naming that agent only, and its \<open>call_count\<close> is the number of those
  calls.
\<close>

theorem per_agent_aggregation:
  "\<exists>s m. run ops CrewTokenTracker_init = Inr s
     \<and> deref s (get_metrics s) = Some m
     \<and> fst ` set (per_agent m) = LLMCallMetrics.agent_name ` set (recorded ops [])
     \<and> (\<forall>(k, a) \<in> set (per_agent m).
           AgentTokenMetrics.total_tokens a =
             sum_list (map LLMCallMetrics.total_tokens (calls_of_agent k (recorded ops [])))
         \<and> AgentTokenMetrics.prompt_tokens a =
             sum_list (map LLMCallMetrics.prompt_tokens (calls_of_agent k (recorded ops [])))
         \<and> AgentTokenMetrics.completion_tokens a =
             sum_list (map LLMCallMetrics.completion_tokens (calls_of_agent k (recorded ops [])))
         \<and> AgentTokenMetrics.call_count a = int (length (calls_of_agent k (recorded ops []))))"
proof -
  obtain s where s: "run ops CrewTokenTracker_init = Inr s" using run_total by blast
  let ?m = "heap s ! metrics s"
  from s have live: "deref s (get_metrics s) = Some ?m" and mem: "?m \<in> set (heap s)"
    using reachable_live by blast+
  from s have rec: "all_calls ?m = recorded ops []" by (rule reachable_recorded)
  from s mem have ok: "agents_ok ?m" using reachable_agents_ok by blast
  have keys: "fst ` set (per_agent ?m) = LLMCallMetrics.agent_name ` set (recorded ops [])"
    using agents_ok_keys [OF ok] rec by simp
  have "agent_matches k a (recorded ops [])" if "(k, a) \<in> set (per_agent ?m)" for k a
    using agents_ok_entry [OF ok that] rec by simp
  then have "\<forall>(k, a) \<in> set (per_agent ?m).
           AgentTokenMetrics.total_tokens a =
             sum_list (map LLMCallMetrics.total_tokens (calls_of_agent k (recorded ops [])))
         \<and> AgentTokenMetrics.prompt_tokens a =
             sum_list (map LLMCallMetrics.prompt_tokens (calls_of_agent k (recorded ops [])))
         \<and> AgentTokenMetrics.completion_tokens a =
             sum_list (map LLMCallMetrics.completion_tokens (calls_of_agent k (recorded ops [])))
         \<and> AgentTokenMetrics.call_count a = int (length (calls_of_agent k (recorded ops [])))"
    by (auto simp: agent_matches_def)
  with s live keys show ?thesis by blast
qed

text \<open>Three calls, two of them by \<open>agent_A\<close>: its entry holds 10 + 5 + 1 + 1 tokens in 2 calls.\<close>

theorem per_agent_aggregation_witness:
  "\<exists>s m a. run [RecordLLMCall 1 ''agent_A'' ''task_1'' ''gpt'' 10 5 default_call_type,
                 RecordLLMCall 2 ''agent_B'' ''task_1'' ''gpt'' 3 2 default_call_type,
                 RecordLLMCall 3 ''agent_A'' ''task_2'' ''gpt'' 1 1 default_call_type]
              CrewTokenTracker_init = Inr s
     \<and> deref s (get_metrics s) = Some m
     \<and> (''agent_A'', a) \<in> set (per_agent m)
     \<and> AgentTokenMetrics.total_tokens a = 17
     \<and> AgentTokenMetrics.prompt_tokens a = 11
     \<and> AgentTokenMetrics.completion_tokens a = 6
     \<and> AgentTokenMetrics.call_count a = 2"
  using per_agent_aggregation
    [of "[RecordLLMCall 1 ''agent_A'' ''task_1'' ''gpt'' 10 5 default_call_type,
          RecordLLMCall 2 ''agent_B'' ''task_1'' ''gpt'' 3 2 default_call_type,
          RecordLLMCall 3 ''agent_A'' ''task_2'' ''gpt'' 1 1 default_call_type]"]
  by (simp add: tracker_defs calls_of_agent_def)

section \<open>Derived field of the call records\<close>

text \<open>
  Claim C6. After any sequence of operations, every call record retained in an object of
  the store (in its \<open>all_calls\<close>, in the \<open>calls\<close> of an agent aggregate or in the \<open>calls\<close>
  of a task aggregate) has \<open>total_tokens\<close> equal to \<open>prompt_tokens\<close> plus
  \<open>completion_tokens\<close>. The object \<^verbatim>\<open>get_metrics\<close> returns is one of them.
\<close>

theorem retained_records_consistent:
  "\<exists>s m. run ops CrewTokenTracker_init = Inr s
     \<and> deref s (get_metrics s) = Some m
     \<and> m \<in> set (heap s)
     \<and> (\<forall>m \<in> set (heap s).
           (\<forall>c \<in> set (all_calls m).
              LLMCallMetrics.total_tokens c =
                LLMCallMetrics.prompt_tokens c + LLMCallMetrics.completion_tokens c)
         \<and> (\<forall>(k, a) \<in> set (per_agent m). \<forall>c \<in> set (AgentTokenMetrics.calls a).
              LLMCallMetrics.total_tokens c =
                LLMCallMetrics.prompt_tokens c + LLMCallMetrics.completion_tokens c)
         \<and> (\<forall>(k, t) \<in> set (per_task m). \<forall>c \<in> set (TaskTokenMetrics.calls t).
              LLMCallMetrics.total_tokens c =
                LLMCallMetrics.prompt_tokens c + LLMCallMetrics.completion_tokens c))"
proof -
  obtain s where s: "run ops CrewTokenTracker_init = Inr s" using run_total by blast
  let ?m = "heap s ! metrics s"
  from s have live: "deref s (get_metrics s) = Some ?m" and mem: "?m \<in> set (heap s)"
    using reachable_live by blast+
  have "(\<forall>c \<in> set (all_calls m).
              LLMCallMetrics.total_tokens c =
                LLMCallMetrics.prompt_tokens c + LLMCallMetrics.completion_tokens c)
         \<and> (\<forall>(k, a) \<in> set (per_agent m). \<forall>c \<in> set (AgentTokenMetrics.calls a).
              LLMCallMetrics.total_tokens c =
                LLMCallMetrics.prompt_tokens c + LLMCallMetrics.completion_tokens c)
         \<and> (\<forall>(k, t) \<in> set (per_task m). \<forall>c \<in> set (TaskTokenMetrics.calls t).
              LLMCallMetrics.total_tokens c =
                LLMCallMetrics.prompt_tokens c + LLMCallMetrics.completion_tokens c)"
    if m: "m \<in> set (heap s)" for m
  proof -
    from s m have c: "calls_ok m" and a: "agents_ok m" and t: "tasks_ok m"
      using reachable_calls_ok reachable_agents_ok reachable_tasks_ok by blast+
    have "set (AgentTokenMetrics.calls a') \<subseteq> set (all_calls m)"
      if "(k, a') \<in> set (per_agent m)" for k a'
      using agents_ok_entry [OF a that] by (auto simp: agent_matches_def calls_of_agent_def)
    moreover have "set (TaskTokenMetrics.calls t') \<subseteq> set (all_calls m)"
      if "(k, t') \<in> set (per_task m)" for k t'
      using tasks_ok_entry [OF t that] by (auto simp: task_matches_def calls_of_key_def)
    ultimately show ?thesis using c unfolding calls_ok_def by blast
  qed
  with s live mem show ?thesis by blast
qed

text \<open>Two calls, one with 0 prompt tokens and one with 0 completion tokens.\<close>

theorem retained_records_consistent_witness:
  "\<exists>s m. run [RecordLLMCall 1 ''agent_A'' ''task_1'' ''gpt'' 0 5 default_call_type,
               RecordLLMCall 2 ''agent_A'' ''task_1'' ''gpt'' 7 0 default_call_type]
              CrewTokenTracker_init = Inr s
     \<and> deref s (get_metrics s) = Some m
     \<and> map LLMCallMetrics.total_tokens (all_calls m) = [5, 7]
     \<and> map LLMCallMetrics.prompt_tokens (all_calls m) = [0, 7]
     \<and> map LLMCallMetrics.completion_tokens (all_calls m) = [5, 0]
     \<and> map (\<lambda>kv. map LLMCallMetrics.total_tokens (AgentTokenMetrics.calls (snd kv))) (per_agent m)
         = [[5, 7]]
     \<and> map (\<lambda>kv. map LLMCallMetrics.total_tokens (TaskTokenMetrics.calls (snd kv))) (per_task m)
         = [[5, 7]]"
  using retained_records_consistent
    [of "[RecordLLMCall 1 ''agent_A'' ''task_1'' ''gpt'' 0 5 default_call_type,
          RecordLLMCall 2 ''agent_A'' ''task_1'' ''gpt'' 7 0 default_call_type]"]
  by (simp add: tracker_defs)

section \<open>What a caller holding the result of \<^verbatim>\<open>get_metrics\<close> sees\<close>

text \<open>
  Claim C1, as stated: after \<^verbatim>\<open>get_metrics\<close> has returned, further \<^verbatim>\<open>record_llm_call\<close>
  invocations leave every field of the returned value unchanged. The source returns the
  object \<^verbatim>\<open>self._metrics\<close> refers to and goes on updating that object, so the claim
  fails: on a new tracker the returned object has \<open>total_tokens = 0\<close>, and after one
  call with 10 and 5 tokens the same object has \<open>total_tokens = 15\<close>.
\<close>

theorem snapshot_isolation_counterexample:
  "map_option WorkflowTokenMetrics.total_tokens
     (deref CrewTokenTracker_init (get_metrics CrewTokenTracker_init)) = Some 0
   \<and> (case record_llm_call 1 ''agent_A'' ''task_1'' ''gpt'' 10 5 default_call_type
             CrewTokenTracker_init of
         Inl e \<Rightarrow> None
       | Inr s' \<Rightarrow> map_option WorkflowTokenMetrics.total_tokens
           (deref s' (get_metrics CrewTokenTracker_init))) = Some 15"
  by (simp add: tracker_defs)

text \<open>
  Claim C1, amended. Let \<^verbatim>\<open>get_metrics\<close> return a reference after any sequence of
  operations, and let any operations follow. Read through that reference afterwards,
  \<open>all_calls\<close> is what it was followed by the records of exactly the calls made before the
  next reset, in order, and each of the three totals is what it was plus the sum of that
  field over those calls. The object as a whole, \<open>per_agent\<close> and \<open>per_task\<close> included, is
  the returned object with exactly those calls added in order, and it is the object as
  it stood when the operations before the next reset had run. So \<^verbatim>\<open>get_metrics\<close>,
  \<^verbatim>\<open>reset\<close> and every call recorded after a reset leave every field of the returned
  object unchanged, and every call recorded before the next reset changes it.
\<close>

theorem snapshot_follows_calls_until_reset:
  "\<exists>s s' m m'. run ops CrewTokenTracker_init = Inr s
     \<and> run later s = Inr s'
     \<and> deref s (get_metrics s) = Some m
     \<and> deref s' (get_metrics s) = Some m'
     \<and> all_calls m' = all_calls m @ recorded (takeWhile (\<lambda>x. x \<noteq> Reset) later) []
     \<and> WorkflowTokenMetrics.total_tokens m' = WorkflowTokenMetrics.total_tokens m
         + sum_list (map LLMCallMetrics.total_tokens
             (recorded (takeWhile (\<lambda>x. x \<noteq> Reset) later) []))
     \<and> WorkflowTokenMetrics.prompt_tokens m' = WorkflowTokenMetrics.prompt_tokens m
         + sum_list (map LLMCallMetrics.prompt_tokens
             (recorded (takeWhile (\<lambda>x. x \<noteq> Reset) later) []))
     \<and> WorkflowTokenMetrics.completion_tokens m' = WorkflowTokenMetrics.completion_tokens m
         + sum_list (map LLMCallMetrics.completion_tokens
             (recorded (takeWhile (\<lambda>x. x \<noteq> Reset) later) []))
     \<and> m' = fold add_call (recorded (takeWhile (\<lambda>x. x \<noteq> Reset) later) []) m
     \<and> (\<exists>s1. run (takeWhile (\<lambda>x. x \<noteq> Reset) later) s = Inr s1
           \<and> deref s1 (get_metrics s) = Some m')"
proof -
  obtain s where s: "run ops CrewTokenTracker_init = Inr s" using run_total by blast
  obtain s' where s': "run later s = Inr s'" using run_total by blast
  let ?r = "metrics s" and ?new = "recorded (takeWhile (\<lambda>x. x \<noteq> Reset) later) []"
  let ?m = "heap s ! ?r" and ?m' = "heap s' ! ?r"
  from s have b: "?r < length (heap s)" by (rule reachable_bound)
  from snapshot_until_reset [OF b s']
  have b': "?r < length (heap s')" and calls: "all_calls ?m' = all_calls ?m @ ?new"
    by simp_all
  from snapshot_split [OF b s'] obtain s1
    where s1: "run (takeWhile (\<lambda>x. x \<noteq> Reset) later) s = Inr s1"
      and b1: "?r < length (heap s1)"
      and same: "?m' = heap s1 ! ?r"
      and obj: "heap s1 ! ?r = fold add_call ?new ?m"
    by blast
  have whole: "?m' = fold add_call ?new ?m" using same obj by simp
  have at1: "deref s1 (get_metrics s) = Some ?m'"
    using b1 same by (simp add: deref_def get_metrics_def)
  have "run (ops @ later) CrewTokenTracker_init = Inr s'"
    using s s' by (simp add: run_append)
  then have "\<forall>m \<in> set (heap s'). sums_ok m" by (rule reachable_sums_ok)
  with b' have after: "sums_ok ?m'" by simp
  from s have "\<forall>m \<in> set (heap s). sums_ok m" by (rule reachable_sums_ok)
  with b have before: "sums_ok ?m" by simp
  have t: "WorkflowTokenMetrics.total_tokens ?m' = WorkflowTokenMetrics.total_tokens ?m
         + sum_list (map LLMCallMetrics.total_tokens ?new)"
    using before after calls by (simp add: sums_ok_def)
  have p: "WorkflowTokenMetrics.prompt_tokens ?m' = WorkflowTokenMetrics.prompt_tokens ?m
         + sum_list (map LLMCallMetrics.prompt_tokens ?new)"
    using before after calls by (simp add: sums_ok_def)
  have c: "WorkflowTokenMetrics.completion_tokens ?m' = WorkflowTokenMetrics.completion_tokens ?m
         + sum_list (map LLMCallMetrics.completion_tokens ?new)"
    using before after calls by (simp add: sums_ok_def)
  have "deref s (get_metrics s) = Some ?m" and "deref s' (get_metrics s) = Some ?m'"
    using b b' by (simp_all add: deref_def get_metrics_def)
  with s s' calls t p c whole s1 at1 show ?thesis by blast
qed

text \<open>
  A reference taken after one call, followed by \<^verbatim>\<open>get_metrics\<close>, a reset, a call, a second
  reset and a call under the first call's names: the whole object is what it was.
\<close>

theorem snapshot_follows_calls_until_reset_witness:
  "\<exists>s s' m. run [RecordLLMCall 1 ''agent_A'' ''task_1'' ''gpt'' 10 5 default_call_type]
               CrewTokenTracker_init = Inr s
     \<and> run [GetMetrics, Reset,
             RecordLLMCall 2 ''agent_B'' ''task_2'' ''gpt'' 3 2 default_call_type,
             Reset,
             RecordLLMCall 3 ''agent_A'' ''task_1'' ''gpt'' 1 1 default_call_type] s = Inr s'
     \<and> deref s (get_metrics s) = Some m
     \<and> deref s' (get_metrics s) = Some m
     \<and> map fst (per_agent m) = [''agent_A'']
     \<and> map fst (per_task m) = [''task_1_agent_A'']
     \<and> WorkflowTokenMetrics.total_tokens m = 15"
  using snapshot_follows_calls_until_reset
    [of "[RecordLLMCall 1 ''agent_A'' ''task_1'' ''gpt'' 10 5 default_call_type]"
        "[GetMetrics, Reset,
          RecordLLMCall 2 ''agent_B'' ''task_2'' ''gpt'' 3 2 default_call_type,
          Reset,
          RecordLLMCall 3 ''agent_A'' ''task_1'' ''gpt'' 1 1 default_call_type]"]
  by (simp add: tracker_defs)

text \<open>
  Claim C10. Let \<^verbatim>\<open>get_metrics\<close> return a reference, let any operations follow, then a
  \<^verbatim>\<open>reset\<close>, then any operations again (calls and resets alike): the object behind the
  reference is after them what it was just before that reset. A reference taken since
  the last reset, in contrast, shows the next recorded call.
\<close>

theorem snapshot_frozen_after_reset:
  "\<exists>s1 s2 s3 m. run ops1 CrewTokenTracker_init = Inr s1
     \<and> run ops2 s1 = Inr s2
     \<and> run ops3 (reset s2) = Inr s3
     \<and> deref s2 (get_metrics s1) = Some m
     \<and> deref s3 (get_metrics s1) = Some m
     \<and> (\<exists>s4 m3 m4. record_llm_call now agent task mdl p c ct s3 = Inr s4
           \<and> deref s3 (get_metrics s3) = Some m3
           \<and> deref s4 (get_metrics s3) = Some m4
           \<and> all_calls m4 = all_calls m3 @ [call_record now agent task mdl p c ct]
           \<and> m4 \<noteq> m3)"
proof -
  obtain s1 where s1: "run ops1 CrewTokenTracker_init = Inr s1" using run_total by blast
  obtain s2 where s2: "run ops2 s1 = Inr s2" using run_total by blast
  obtain s3 where s3: "run ops3 (reset s2) = Inr s3" using run_total by blast
  let ?r = "metrics s1"
  from s1 have "?r < length (heap s1)" by (rule reachable_bound)
  with run_length_mono [OF s2] have r2: "?r < length (heap s2)" by simp
  from frozen_after_reset [OF r2 s3]
  have r3: "?r < length (heap s3)" and same: "heap s3 ! ?r = heap s2 ! ?r" by simp_all
  have old: "deref s2 (get_metrics s1) = Some (heap s2 ! ?r)"
    "deref s3 (get_metrics s1) = Some (heap s2 ! ?r)"
    using r2 r3 same by (simp_all add: deref_def get_metrics_def)
  have b3: "metrics s3 < length (heap s3)"
    using s3 reset_bound by (rule run_bound)
  let ?s4 = "s3\<lparr>heap := (heap s3)[metrics s3 :=
            add_call (call_record now agent task mdl p c ct) (heap s3 ! metrics s3)]\<rparr>"
  let ?m3 = "heap s3 ! metrics s3"
  let ?m4 = "add_call (call_record now agent task mdl p c ct) ?m3"
  have "record_llm_call now agent task mdl p c ct s3 = Inr ?s4" by (rule record_llm_call_eq)
  moreover have "deref s3 (get_metrics s3) = Some ?m3"
    using b3 by (simp add: deref_def get_metrics_def)
  moreover have "deref ?s4 (get_metrics s3) = Some ?m4"
    using b3 by (simp add: deref_def get_metrics_def)
  moreover have "all_calls ?m4 = all_calls ?m3 @ [call_record now agent task mdl p c ct]"
    by simp
  moreover have "?m4 \<noteq> ?m3"
  proof
    assume "?m4 = ?m3"
    then have "all_calls ?m4 = all_calls ?m3" by (rule arg_cong)
    then show False by simp
  qed
  ultimately have "\<exists>s4 m3 m4. record_llm_call now agent task mdl p c ct s3 = Inr s4
           \<and> deref s3 (get_metrics s3) = Some m3
           \<and> deref s4 (get_metrics s3) = Some m4
           \<and> all_calls m4 = all_calls m3 @ [call_record now agent task mdl p c ct]
           \<and> m4 \<noteq> m3"
    by blast
  with s1 s2 s3 old show ?thesis by blast
qed

section \<open>Per-task aggregation and the composite key\<close>

text \<open>
  What holds of \<open>per_task\<close> for every sequence of operations: its keys are the composite
  keys of the calls recorded since the last reset, and each entry agrees with the calls
  filed under its key; its \<open>task_name\<close> and \<open>agent_name\<close> are those of the first such call.
\<close>

lemma tasks_ok_keys:
  assumes "tasks_ok m"
  shows "fst ` set (per_task m) = key_of ` set (all_calls m)"
proof -
  have inv: "case map_of (per_task m) k of
      None \<Rightarrow> calls_of_key k (all_calls m) = []
    | Some t \<Rightarrow> task_matches k t (all_calls m)" for k
    using assms by (simp add: tasks_ok_def)
  have "k \<in> fst ` set (per_task m) \<longleftrightarrow> k \<in> key_of ` set (all_calls m)" for k
  proof -
    have "k \<in> fst ` set (per_task m) \<longleftrightarrow> map_of (per_task m) k \<noteq> None"
      by (simp add: map_of_eq_None_iff)
    also have "\<dots> \<longleftrightarrow> calls_of_key k (all_calls m) \<noteq> []"
      using inv [of k] by (auto simp: task_matches_def split: option.splits)
    also have "\<dots> \<longleftrightarrow> k \<in> key_of ` set (all_calls m)"
      by (auto simp: calls_of_key_def filter_empty_conv)
    finally show ?thesis .
  qed
  then show ?thesis by blast
qed

lemma per_task_aggregation_by_key:
  "\<exists>s m. run ops CrewTokenTracker_init = Inr s
     \<and> deref s (get_metrics s) = Some m
     \<and> fst ` set (per_task m) = key_of ` set (recorded ops [])
     \<and> (\<forall>(k, t) \<in> set (per_task m). task_matches k t (recorded ops []))"
proof -
  obtain s where s: "run ops CrewTokenTracker_init = Inr s" using run_total by blast
  let ?m = "heap s ! metrics s"
  from s have live: "deref s (get_metrics s) = Some ?m" and mem: "?m \<in> set (heap s)"
    using reachable_live by blast+
  from s have rec: "all_calls ?m = recorded ops []" by (rule reachable_recorded)
  from s mem have ok: "tasks_ok ?m" using reachable_tasks_ok by blast
  have keys: "fst ` set (per_task ?m) = key_of ` set (recorded ops [])"
    using tasks_ok_keys [OF ok] rec by simp
  have "task_matches k t (recorded ops [])" if "(k, t) \<in> set (per_task ?m)" for k t
    using tasks_ok_entry [OF ok that] rec by simp
  then have "\<forall>(k, t) \<in> set (per_task ?m). task_matches k t (recorded ops [])" by auto
  with s live keys show ?thesis by blast
qed

text \<open>The example of the specification: one task name under two agents gives two entries.\<close>

lemma per_task_example:
  "\<exists>s m t1 t2. run [RecordLLMCall 1 ''agent_A'' ''task_1'' ''gpt'' 10 5 default_call_type,
                     RecordLLMCall 2 ''agent_B'' ''task_1'' ''gpt'' 3 2 default_call_type]
              CrewTokenTracker_init = Inr s
     \<and> deref s (get_metrics s) = Some m
     \<and> per_task m = [(''task_1_agent_A'', t1), (''task_1_agent_B'', t2)]
     \<and> TaskTokenMetrics.total_tokens t1 = 15
     \<and> TaskTokenMetrics.total_tokens t2 = 5
     \<and> WorkflowTokenMetrics.total_tokens m = 20"
  by (simp add: tracker_defs)

text \<open>
  Claim C9. The pairs (task \<open>a\<close>, agent \<open>b_c\<close>) and (task \<open>a_b\<close>, agent \<open>c\<close>) differ and have the
  same composite key \<open>a_b_c\<close>. Recording one call for each, with any counts, leaves one
  \<open>per_task\<close> entry: it holds the tokens of both calls and a \<open>call_count\<close> of 2, and its
  \<open>task_name\<close> and \<open>agent_name\<close> are those of the pair recorded first, in either order.
\<close>

theorem composite_key_collision:
  "(''a'', ''b_c'') \<noteq> (''a_b'', ''c'')
   \<and> task_key ''a'' ''b_c'' = ''a_b_c''
   \<and> task_key ''a_b'' ''c'' = ''a_b_c''
   \<and> (\<exists>s m t. run [RecordLLMCall n1 ''b_c'' ''a'' mdl1 p1 c1 ct1,
                      RecordLLMCall n2 ''c'' ''a_b'' mdl2 p2 c2 ct2] CrewTokenTracker_init = Inr s
          \<and> deref s (get_metrics s) = Some m
          \<and> per_task m = [(''a_b_c'', t)]
          \<and> TaskTokenMetrics.task_name t = ''a''
          \<and> TaskTokenMetrics.agent_name t = ''b_c''
          \<and> TaskTokenMetrics.total_tokens t = (p1 + c1) + (p2 + c2)
          \<and> TaskTokenMetrics.prompt_tokens t = p1 + p2
          \<and> TaskTokenMetrics.completion_tokens t = c1 + c2
          \<and> TaskTokenMetrics.call_count t = 2
          \<and> TaskTokenMetrics.calls t =
                [call_record n1 ''b_c'' ''a'' mdl1 p1 c1 ct1,
                 call_record n2 ''c'' ''a_b'' mdl2 p2 c2 ct2])
   \<and> (\<exists>s m t. run [RecordLLMCall n2 ''c'' ''a_b'' mdl2 p2 c2 ct2,
                      RecordLLMCall n1 ''b_c'' ''a'' mdl1 p1 c1 ct1] CrewTokenTracker_init = Inr s
          \<and> deref s (get_metrics s) = Some m
          \<and> per_task m = [(''a_b_c'', t)]
          \<and> TaskTokenMetrics.task_name t = ''a_b''
          \<and> TaskTokenMetrics.agent_name t = ''c''
          \<and> TaskTokenMetrics.total_tokens t = (p2 + c2) + (p1 + c1)
          \<and> TaskTokenMetrics.call_count t = 2)"
  by (simp add: tracker_defs)

text \<open>
  Claim C2 at the calls (agent \<open>Analyst\<close>, task \<open>research_Senior\<close>, 10, 5) and
  (agent \<open>Senior_Analyst\<close>, task \<open>research\<close>, 3, 2): the calls naming the first pair
  sum to 15 tokens and those naming the second to 5, yet \<open>per_task\<close> has a single entry,
  labelled with the first pair, with \<open>total_tokens = 20\<close> and \<open>call_count = 2\<close>.
\<close>

theorem per_task_pairs_merged:
  "\<exists>s m t. run [RecordLLMCall 1 ''Analyst'' ''research_Senior'' ''gpt'' 10 5 default_call_type,
                 RecordLLMCall 2 ''Senior_Analyst'' ''research'' ''gpt'' 3 2 default_call_type]
              CrewTokenTracker_init = Inr s
     \<and> deref s (get_metrics s) = Some m
     \<and> per_task m = [(''research_Senior_Analyst'', t)]
     \<and> TaskTokenMetrics.task_name t = ''research_Senior''
     \<and> TaskTokenMetrics.agent_name t = ''Analyst''
     \<and> TaskTokenMetrics.total_tokens t = 20
     \<and> TaskTokenMetrics.call_count t = 2
     \<and> sum_list (map LLMCallMetrics.total_tokens
           (filter (\<lambda>c. LLMCallMetrics.task_name c = ''research_Senior''
                        \<and> LLMCallMetrics.agent_name c = ''Analyst'') (all_calls m))) = 15
     \<and> sum_list (map LLMCallMetrics.total_tokens
           (filter (\<lambda>c. LLMCallMetrics.task_name c = ''research''
                        \<and> LLMCallMetrics.agent_name c = ''Senior_Analyst'') (all_calls m))) = 5"
  by (simp add: tracker_defs)

end
